theory Spec2Isabelle
  imports Complex_Main
begin

section \<open>Data model\<close>

text \<open>
  The types of the tracker. A \<open>time.Duration\<close> is a count of nanoseconds; durations are
  only compared and sorted here, never added, so they are integers. A \<open>time.Time\<close> is
  an instant on the process clock, as a count of nanoseconds: \<open>time.Now()\<close> is an
  argument \<open>now\<close> of every operation that reads the clock, \<open>t.Add(d)\<close> is \<open>t + d\<close> and
  \<open>t.After(u)\<close> is \<open>u < t\<close>; the overflow of clock arithmetic is not modelled. The
  mutexes are left out: every operation below runs under its lock from start to
  end, so the operations are the atomic steps.
\<close>

type_synonym Duration = int
type_synonym Time = int

definition Add :: "Time \<Rightarrow> Duration \<Rightarrow> Time" where
  "Add t d = t + d"

definition After :: "Time \<Rightarrow> Time \<Rightarrow> bool" where
  "After t u = (u < t)"

record MetricConfig =
  ID :: string
  Window :: Duration
  Percentiles :: "int list"
  MaxSamples :: int
  CreatedAt :: Time

record LatencySample =
  LatencyVal :: Duration
  RecordedAt :: Time

record Metric =
  Config :: MetricConfig
  Samples :: "LatencySample list"

text \<open>
  The percentile fields of a snapshot are pointers in the source: \<open>None\<close> is the nil
  pointer ("not available yet"), \<open>Some d\<close> a pointer to the duration \<open>d\<close>. The field
  \<open>Window\<close> of the snapshot is \<open>SnapshotWindow\<close> here, since \<open>Window\<close> is the
  configuration's field.
\<close>

record MetricSnapshot =
  MetricID :: string
  SnapshotWindow :: Duration
  Count :: nat
  P50 :: "Duration option"
  P95 :: "Duration option"
  P99 :: "Duration option"

text \<open>
  The store maps identifiers to pointers to metrics. A pointer is the index of the
  metric among the objects allocated so far; allocation appends. The map of a store
  is \<open>None\<close> when it is the nil map of a zero-value \<open>MetricStore{}\<close>, and \<open>Some m\<close> once
  it has been made.
\<close>

type_synonym ptr = nat

record MetricStore =
  Metrics :: "(string \<rightharpoonup> ptr) option"

record memory =
  objects :: "Metric list"
  store :: MetricStore

text \<open>Run-time panics are results of the model, so that their absence can be proved.\<close>

datatype panic = NilMapWrite | IndexOutOfRange | SliceOutOfRange

datatype 'a outcome = Panic panic | Done 'a

datatype error = WindowTooSmall | MaxSamplesTooSmall

section \<open>Recording a latency\<close>

text \<open>The slice expression \<open>s[1:]\<close>, which panics on an empty slice.\<close>

definition slice_from_1 :: "'a list \<Rightarrow> 'a list outcome" where
  "slice_from_1 s = (if 1 \<le> length s then Done (drop 1 s) else Panic SliceOutOfRange)"

definition RecordLatency :: "Duration \<Rightarrow> Time \<Rightarrow> Metric \<Rightarrow> (bool \<times> Metric) outcome" where
  "RecordLatency latency now m =
     (if latency \<le> 0 then Done (False, m)
      else
        let sample = \<lparr>LatencyVal = latency, RecordedAt = now\<rparr>;
            m1 = m\<lparr>Samples := Samples m @ [sample]\<rparr>
        in if MaxSamples (Config m1) < int (length (Samples m1))
           then (case slice_from_1 (Samples m1) of
                   Panic e \<Rightarrow> Panic e
                 | Done s \<Rightarrow> Done (True, m1\<lparr>Samples := s\<rparr>))
           else Done (True, m1))"

text \<open>
  A sequence of calls of \<open>RecordLatency\<close> on one metric, each with its latency and the
  clock reading at the call.
\<close>

fun record_all :: "(Duration \<times> Time) list \<Rightarrow> Metric \<Rightarrow> Metric outcome" where
  "record_all [] m = Done m"
| "record_all (c # cs) m =
     (case RecordLatency (fst c) (snd c) m of
        Panic e \<Rightarrow> Panic e
      | Done r \<Rightarrow> record_all cs (snd r))"

definition sample_of :: "Duration \<times> Time \<Rightarrow> LatencySample" where
  "sample_of c = \<lparr>LatencyVal = fst c, RecordedAt = snd c\<rparr>"

text \<open>The last \<open>k\<close> elements of a list, all of them when there are fewer.\<close>

definition last_n :: "nat \<Rightarrow> 'a list \<Rightarrow> 'a list" where
  "last_n k xs = drop (length xs - k) xs"

section \<open>Floating point\<close>

text \<open>
  \<open>computePercentile\<close> computes its index in \<open>float64\<close>. A finite \<open>float64\<close> is a
  rational number; an operation returns the exact result rounded to the nearest
  number with a 53-bit significand, ties to the even significand (IEEE 754 binary64).
  The exponent range is not modelled: between 64-bit integers, the quotient by 100
  and the product of the source stay far inside it, so no infinity, NaN or
  subnormal number arises.

  \<open>expo x\<close> is the exponent of a positive \<open>x\<close>: \<open>2 powi expo x \<le> x < 2 powi (expo x + 1)\<close>.
\<close>

function expo :: "rat \<Rightarrow> int" where
  "expo x = (if x \<le> 0 then 0
             else if 2 \<le> x then expo (x / 2) + 1
             else if x < 1 then expo (2 * x) - 1
             else 0)"
  by pat_completeness auto
termination
proof (relation "measure (\<lambda>x. if 1 \<le> x then nat \<lfloor>x\<rfloor> else nat \<lfloor>1 / x\<rfloor> + 1)")
  show "wf (measure (\<lambda>x::rat. if 1 \<le> x then nat \<lfloor>x\<rfloor> else nat \<lfloor>1 / x\<rfloor> + 1))"
    by simp
next
  fix x :: rat
  assume a: "\<not> x \<le> 0" "2 \<le> x"
  have "\<lfloor>x / 2\<rfloor> < \<lfloor>x\<rfloor>" using a by linarith
  moreover have "0 < \<lfloor>x\<rfloor>" using a by linarith
  ultimately show "(x / 2, x) \<in> measure (\<lambda>x. if 1 \<le> x then nat \<lfloor>x\<rfloor> else nat \<lfloor>1 / x\<rfloor> + 1)"
    using a by auto
next
  fix x :: rat
  assume a: "\<not> x \<le> 0" "\<not> 2 \<le> x" "x < 1"
  have x0: "0 < x" using a by simp
  have "1 < 1 / x" using a x0 by (simp add: field_simps)
  then have f1: "1 \<le> \<lfloor>1 / x\<rfloor>" by linarith
  show "(2 * x, x) \<in> measure (\<lambda>x. if 1 \<le> x then nat \<lfloor>x\<rfloor> else nat \<lfloor>1 / x\<rfloor> + 1)"
  proof (cases "1 \<le> 2 * x")
    case True
    have "\<lfloor>2 * x\<rfloor> = 1" using True a by linarith
    then show ?thesis using True a f1 by auto
  next
    case False
    have "1 / (2 * x) = (1 / x) / 2" by simp
    then have "\<lfloor>1 / (2 * x)\<rfloor> < \<lfloor>1 / x\<rfloor>" using f1 by linarith
    then show ?thesis using False a f1 by auto
  qed
qed

declare expo.simps [simp del]

text \<open>Rounding to the nearest integer, a tie to the even one.\<close>

definition rne :: "rat \<Rightarrow> int" where
  "rne q = (let f = \<lfloor>q\<rfloor>; r = q - of_int f
            in if r < 1 / 2 then f
               else if 1 / 2 < r then f + 1
               else if even f then f else f + 1)"

definition fl_pos :: "rat \<Rightarrow> rat" where
  "fl_pos x = (let u = 2 powi (expo x - 52) in of_int (rne (x / u)) * u)"

text \<open>\<open>fl x\<close> is the \<open>float64\<close> nearest to \<open>x\<close>.\<close>

definition fl :: "rat \<Rightarrow> rat" where
  "fl x = (if x = 0 then 0 else if 0 < x then fl_pos x else - fl_pos (- x))"

definition float64_of_int :: "int \<Rightarrow> rat" where
  "float64_of_int i = fl (of_int i)"

definition float64_div :: "rat \<Rightarrow> rat \<Rightarrow> rat" where
  "float64_div a b = fl (a / b)"

definition float64_mul :: "rat \<Rightarrow> rat \<Rightarrow> rat" where
  "float64_mul a b = fl (a * b)"

definition math_Ceil :: "rat \<Rightarrow> rat" where
  "math_Ceil x = of_int \<lceil>x\<rceil>"

text \<open>
  The type \<open>int\<close> of the source has 64 bits; its arithmetic wraps around.
\<close>

definition wrap64 :: "int \<Rightarrow> int" where
  "wrap64 i = (i + 2 ^ 63) mod 2 ^ 64 - 2 ^ 63"

definition int_sub :: "int \<Rightarrow> int \<Rightarrow> int" where
  "int_sub a b = wrap64 (a - b)"

text \<open>
  The conversion \<open>int(x)\<close> of a \<open>float64\<close> truncates towards zero. When the value does
  not fit the type \<open>int\<close>, the language leaves the result to the implementation: it
  is \<open>impl x\<close> here, for a function \<open>impl\<close> that every operation computing in
  \<open>float64\<close> takes as its first argument. \<open>int_indefinite\<close> is the choice of x86-64,
  whose conversion instruction returns the least integer then.
\<close>

definition int_of_float64 :: "(rat \<Rightarrow> int) \<Rightarrow> rat \<Rightarrow> int" where
  "int_of_float64 impl x =
     (if - (2 ^ 63) \<le> x \<and> x < 2 ^ 63
      then (if 0 \<le> x then \<lfloor>x\<rfloor> else \<lceil>x\<rceil>)
      else wrap64 (impl x))"

definition int_indefinite :: "rat \<Rightarrow> int" where
  "int_indefinite x = - (2 ^ 63)"

section \<open>Percentiles and snapshots\<close>

text \<open>
  The index expression \<open>s[i]\<close>, which panics outside the slice. In
  \<open>computePercentile\<close>, \<open>N\<close> is the length of a slice that is not empty, so \<open>N - 1\<close>
  does not wrap; the subtraction from the converted ceiling can, and is \<open>int_sub\<close>.
\<close>

definition index :: "'a list \<Rightarrow> int \<Rightarrow> 'a outcome" where
  "index s i = (if 0 \<le> i \<and> i < int (length s) then Done (s ! nat i) else Panic IndexOutOfRange)"

definition computePercentile ::
    "(rat \<Rightarrow> int) \<Rightarrow> Duration list \<Rightarrow> int \<Rightarrow> Duration option outcome" where
  "computePercentile impl latencies percentile =
     (let N = int (length latencies) in
      if N = 0 then Done None
      else
        let idxPercentile =
              int_sub
                (int_of_float64 impl
                   (math_Ceil
                      (float64_mul (float64_div (float64_of_int percentile) 100)
                         (float64_of_int N))))
                1;
            idxPercentile = (if idxPercentile < 0 then 0 else idxPercentile);
            idxPercentile = (if N \<le> idxPercentile then N - 1 else idxPercentile)
        in case index latencies idxPercentile of
             Panic e \<Rightarrow> Panic e
           | Done val \<Rightarrow> Done (Some val))"

text \<open>
  The value \<open>math.Ceil\<close> returns inside \<open>computePercentile\<close>, as an integer: the rank
  of the percentile among \<open>N\<close> values as the source computes it.
\<close>

definition rank_ceiling :: "int \<Rightarrow> nat \<Rightarrow> int" where
  "rank_ceiling percentile N =
     \<lceil>float64_mul (float64_div (float64_of_int percentile) 100) (float64_of_int (int N))\<rceil>"

text \<open>
  The two loops of \<open>CalculateLatency\<close>: the first keeps the samples recorded after the
  cutoff, the second takes their latencies. Both append to an accumulator.
\<close>

fun collect_active :: "Time \<Rightarrow> LatencySample list \<Rightarrow> LatencySample list \<Rightarrow> LatencySample list" where
  "collect_active cutoff [] active = active"
| "collect_active cutoff (record # rest) active =
     collect_active cutoff rest
       (if After (RecordedAt record) cutoff then active @ [record] else active)"

fun collect_latencies :: "LatencySample list \<Rightarrow> Duration list \<Rightarrow> Duration list" where
  "collect_latencies [] latencies = latencies"
| "collect_latencies (l # rest) latencies = collect_latencies rest (latencies @ [LatencyVal l])"

text \<open>
  \<open>sort.Slice\<close> with the comparison \<open><\<close> on durations returns the ascending
  arrangement of the slice; there is one such arrangement of a sequence of integers,
  and \<open>sort\<close> computes it.
\<close>

definition CalculateLatency :: "(rat \<Rightarrow> int) \<Rightarrow> Time \<Rightarrow> Metric \<Rightarrow> MetricSnapshot outcome" where
  "CalculateLatency impl now m =
     (let cutoff = Add now (- Window (Config m));
          active = collect_active cutoff (Samples m) [];
          snapshot = \<lparr>MetricID = ID (Config m), SnapshotWindow = Window (Config m),
                      Count = length active, P50 = None, P95 = None, P99 = None\<rparr>
      in if 0 < length active
         then
           let latencies = sort (collect_latencies active []) in
           case computePercentile impl latencies 50 of
             Panic e \<Rightarrow> Panic e
           | Done p50 \<Rightarrow>
               (case computePercentile impl latencies 95 of
                  Panic e \<Rightarrow> Panic e
                | Done p95 \<Rightarrow>
                    (case computePercentile impl latencies 99 of
                       Panic e \<Rightarrow> Panic e
                     | Done p99 \<Rightarrow> Done (snapshot\<lparr>P50 := p50, P95 := p95, P99 := p99\<rparr>)))
         else Done snapshot)"

text \<open>
  The rule of the specification for \<open>computePercentile\<close>, in exact arithmetic: the
  element at index \<open>ceil((p/100) * N) - 1\<close>, clamped to \<open>[0, N - 1]\<close>.
\<close>

definition nearest_rank_index :: "nat \<Rightarrow> int \<Rightarrow> int" where
  "nearest_rank_index N p = max 0 (min (int N - 1) (\<lceil>(of_int p / 100) * (of_nat N :: rat)\<rceil> - 1))"

definition nearest_rank :: "Duration list \<Rightarrow> int \<Rightarrow> Duration" where
  "nearest_rank latencies p = latencies ! nat (nearest_rank_index (length latencies) p)"

section \<open>The store\<close>

definition createNewMetricStore :: MetricStore where
  "createNewMetricStore = \<lparr>Metrics = Some Map.empty\<rparr>"

text \<open>
  Reading a nil map finds nothing; assigning to an entry of a nil map panics.
\<close>

definition map_lookup :: "(string \<rightharpoonup> ptr) option \<Rightarrow> string \<Rightarrow> ptr option" where
  "map_lookup mp k = (case mp of None \<Rightarrow> None | Some f \<Rightarrow> f k)"

definition map_assign :: "(string \<rightharpoonup> ptr) option \<Rightarrow> string \<Rightarrow> ptr \<Rightarrow> (string \<rightharpoonup> ptr) option outcome" where
  "map_assign mp k v = (case mp of None \<Rightarrow> Panic NilMapWrite | Some f \<Rightarrow> Done (Some (f(k \<mapsto> v))))"

text \<open>\<open>&Metric{...}\<close>: the new object is appended, its pointer is its index.\<close>

definition new_metric :: "Metric \<Rightarrow> memory \<Rightarrow> ptr \<times> memory" where
  "new_metric metric \<sigma> = (length (objects \<sigma>), \<sigma>\<lparr>objects := objects \<sigma> @ [metric]\<rparr>)"

definition defaultMetricConfig :: "string \<Rightarrow> Time \<Rightarrow> MetricConfig" where
  "defaultMetricConfig key now =
     \<lparr>ID = key, Window = 60000000000, Percentiles = [], MaxSamples = 100, CreatedAt = now\<rparr>"

definition CreateMetric :: "MetricConfig \<Rightarrow> memory \<Rightarrow> ((error + ptr) \<times> memory) outcome" where
  "CreateMetric config \<sigma> =
     (if Window config \<le> 0 then Done (Inl WindowTooSmall, \<sigma>)
      else if MaxSamples config \<le> 0 then Done (Inl MaxSamplesTooSmall, \<sigma>)
      else
        let (metric, \<sigma>1) = new_metric \<lparr>Config = config, Samples = []\<rparr> \<sigma> in
        case map_assign (Metrics (store \<sigma>1)) (ID config) metric of
          Panic e \<Rightarrow> Panic e
        | Done mp \<Rightarrow> Done (Inr metric, \<sigma>1\<lparr>store := \<lparr>Metrics = mp\<rparr>\<rparr>))"

definition getMetric :: "string \<Rightarrow> memory \<Rightarrow> ptr option" where
  "getMetric key \<sigma> = map_lookup (Metrics (store \<sigma>)) key"

definition getOrCreateMetric :: "string \<Rightarrow> Time \<Rightarrow> memory \<Rightarrow> (ptr \<times> memory) outcome" where
  "getOrCreateMetric key now \<sigma> =
     (case map_lookup (Metrics (store \<sigma>)) key of
        Some metric \<Rightarrow> Done (metric, \<sigma>)
      | None \<Rightarrow>
          let (metric, \<sigma>1) = new_metric \<lparr>Config = defaultMetricConfig key now, Samples = []\<rparr> \<sigma>;
              \<sigma>2 = \<sigma>1\<lparr>store := \<lparr>Metrics = Some Map.empty\<rparr>\<rparr>
          in case map_assign (Metrics (store \<sigma>2)) key metric of
               Panic e \<Rightarrow> Panic e
             | Done mp \<Rightarrow> Done (metric, \<sigma>2\<lparr>store := \<lparr>Metrics = mp\<rparr>\<rparr>))"

text \<open>The metric a pointer refers to.\<close>

definition deref :: "memory \<Rightarrow> ptr \<Rightarrow> Metric option" where
  "deref \<sigma> p = (if p < length (objects \<sigma>) then Some (objects \<sigma> ! p) else None)"

section \<open>Recording: results\<close>

lemma RecordLatency_positive:
  assumes "0 < latency"
  shows "RecordLatency latency now m =
           Done (True, m\<lparr>Samples :=
             (if MaxSamples (Config m) < int (length (Samples m)) + 1
              then drop 1 (Samples m @ [\<lparr>LatencyVal = latency, RecordedAt = now\<rparr>])
              else Samples m @ [\<lparr>LatencyVal = latency, RecordedAt = now\<rparr>])\<rparr>)"
  using assms by (simp add: RecordLatency_def slice_from_1_def Let_def)

lemma last_n_append_one:
  assumes "length xs \<le> k"
  shows "last_n k (xs @ [x]) = (if k < length xs + 1 then drop 1 (xs @ [x]) else xs @ [x])"
proof (cases "k < length xs + 1")
  case True
  with assms have "k = length xs" by simp
  then show ?thesis by (simp add: last_n_def)
next
  case False
  then show ?thesis by (simp add: last_n_def)
qed

lemma length_last_n: "length (last_n k xs) \<le> k"
  by (simp add: last_n_def)

lemma last_n_last_n_append: "last_n k (last_n k xs @ ys) = last_n k (xs @ ys)"
proof (cases "length xs \<le> k")
  case True
  then show ?thesis by (simp add: last_n_def)
next
  case False
  then have k: "k < length xs" by simp
  have "last_n k (last_n k xs @ ys) = drop (k + length ys - k) (drop (length xs - k) xs @ ys)"
    using k by (simp add: last_n_def)
  also have "\<dots> = drop (length ys) (drop (length xs - k) xs) @ drop (length ys - k) ys"
    using k by simp
  also have "\<dots> = drop (length xs + length ys - k) xs @ drop (length ys - k) ys"
    using k by (simp add: add.commute)
  also have "\<dots> = last_n k (xs @ ys)"
    using k by (simp add: last_n_def)
  finally show ?thesis .
qed

text \<open>
  C5: a latency that is zero or negative is rejected: \<open>RecordLatency\<close> returns false and
  the metric is the one it was given. A positive latency is accepted: the call
  returns true, the configuration is untouched, and the stored sequence is the old
  one with the new sample appended, less at most its head; with a positive
  \<open>MaxSamples\<close> the new sample is the last one stored.
\<close>

theorem RecordLatency_validates:
  "(latency \<le> 0 \<longrightarrow> RecordLatency latency now m = Done (False, m)) \<and>
   (0 < latency \<longrightarrow>
      (\<exists>m'. RecordLatency latency now m = Done (True, m') \<and>
            Config m' = Config m \<and>
            (Samples m' = Samples m @ [\<lparr>LatencyVal = latency, RecordedAt = now\<rparr>] \<or>
             Samples m' = drop 1 (Samples m @ [\<lparr>LatencyVal = latency, RecordedAt = now\<rparr>])) \<and>
            (0 < MaxSamples (Config m) \<longrightarrow>
               Samples m' \<noteq> [] \<and>
               last (Samples m') = \<lparr>LatencyVal = latency, RecordedAt = now\<rparr>)))"
proof (intro conjI impI)
  assume "latency \<le> 0"
  then show "RecordLatency latency now m = Done (False, m)"
    by (simp add: RecordLatency_def)
next
  assume pos: "0 < latency"
  let ?s = "\<lparr>LatencyVal = latency, RecordedAt = now\<rparr>"
  let ?m' = "m\<lparr>Samples :=
             (if MaxSamples (Config m) < int (length (Samples m)) + 1
              then drop 1 (Samples m @ [?s]) else Samples m @ [?s])\<rparr>"
  have r: "RecordLatency latency now m = Done (True, ?m')"
    using pos by (rule RecordLatency_positive)
  have kept: "0 < MaxSamples (Config m) \<longrightarrow> Samples ?m' \<noteq> [] \<and> last (Samples ?m') = ?s"
  proof
    assume cap: "0 < MaxSamples (Config m)"
    show "Samples ?m' \<noteq> [] \<and> last (Samples ?m') = ?s"
    proof (cases "MaxSamples (Config m) < int (length (Samples m)) + 1")
      case True
      with cap have "Samples m \<noteq> []" by auto
      then obtain y ys where "Samples m = y # ys" by (cases "Samples m") auto
      then show ?thesis using True by simp
    next
      case False
      then show ?thesis by simp
    qed
  qed
  show "\<exists>m'. RecordLatency latency now m = Done (True, m') \<and>
            Config m' = Config m \<and>
            (Samples m' = Samples m @ [?s] \<or> Samples m' = drop 1 (Samples m @ [?s])) \<and>
            (0 < MaxSamples (Config m) \<longrightarrow> Samples m' \<noteq> [] \<and> last (Samples m') = ?s)"
  proof (intro exI conjI)
    show "RecordLatency latency now m = Done (True, ?m')" by (rule r)
    show "Config ?m' = Config m" by simp
    show "Samples ?m' = Samples m @ [?s] \<or> Samples ?m' = drop 1 (Samples m @ [?s])" by simp
    show "0 < MaxSamples (Config m) \<longrightarrow> Samples ?m' \<noteq> [] \<and> last (Samples ?m') = ?s"
      by (rule kept)
  qed
qed

theorem RecordLatency_validates_witness:
  "(0::int) \<le> 0 \<and>
   RecordLatency 0 5 \<lparr>Config = defaultMetricConfig ''m'' 0, Samples = []\<rparr> =
     Done (False, \<lparr>Config = defaultMetricConfig ''m'' 0, Samples = []\<rparr>) \<and>
   (0::int) < 7 \<and>
   RecordLatency 7 5 \<lparr>Config = defaultMetricConfig ''m'' 0, Samples = []\<rparr> =
     Done (True, \<lparr>Config = defaultMetricConfig ''m'' 0,
                  Samples = [\<lparr>LatencyVal = 7, RecordedAt = 5\<rparr>]\<rparr>) \<and>
   (0::int) < MaxSamples (defaultMetricConfig ''m'' 0)"
  using RecordLatency_validates [of 0 5 "\<lparr>Config = defaultMetricConfig ''m'' 0, Samples = []\<rparr>"]
    RecordLatency_validates [of 7 5 "\<lparr>Config = defaultMetricConfig ''m'' 0, Samples = []\<rparr>"]
  by (simp add: RecordLatency_def defaultMetricConfig_def)

lemma record_all_last_n:
  assumes "int (length (Samples m)) \<le> MaxSamples (Config m)"
    and "\<forall>c \<in> set calls. 0 < fst c"
  shows "\<exists>m'. record_all calls m = Done m' \<and> Config m' = Config m \<and>
           Samples m' = last_n (nat (MaxSamples (Config m))) (Samples m @ map sample_of calls)"
  using assms
proof (induction calls arbitrary: m)
  case Nil
  then show ?case by (simp add: last_n_def)
next
  case (Cons c cs)
  let ?k = "nat (MaxSamples (Config m))"
  let ?m1 = "m\<lparr>Samples := last_n ?k (Samples m @ [sample_of c])\<rparr>"
  have len: "length (Samples m) \<le> ?k" using Cons.prems(1) by simp
  have pos: "0 < fst c" using Cons.prems(2) by simp
  have step: "RecordLatency (fst c) (snd c) m = Done (True, ?m1)"
  proof -
    have "(MaxSamples (Config m) < int (length (Samples m)) + 1) = (?k < length (Samples m) + 1)"
      using Cons.prems(1) by auto
    then show ?thesis
      using RecordLatency_positive [OF pos, of "snd c" m] last_n_append_one [OF len, of "sample_of c"]
      by (simp add: sample_of_def)
  qed
  have inv: "int (length (Samples ?m1)) \<le> MaxSamples (Config ?m1)"
    using length_last_n [of ?k "Samples m @ [sample_of c]"] Cons.prems(1) by simp
  have rest: "\<forall>c \<in> set cs. 0 < fst c" using Cons.prems(2) by simp
  obtain m' where m': "record_all cs ?m1 = Done m'" "Config m' = Config ?m1"
    "Samples m' = last_n (nat (MaxSamples (Config ?m1))) (Samples ?m1 @ map sample_of cs)"
    using Cons.IH [OF inv rest] by blast
  have "Samples m' = last_n ?k (Samples m @ map sample_of (c # cs))"
    using m'(3) last_n_last_n_append [of ?k "Samples m @ [sample_of c]" "map sample_of cs"]
    by simp
  then show ?case using step m'(1,2) by simp
qed

text \<open>
  C3: on a metric that holds at most \<open>MaxSamples\<close> samples, any sequence of calls of
  \<open>RecordLatency\<close> with positive latencies returns, and leaves a metric whose stored
  sequence is no longer than \<open>MaxSamples\<close> and is the last \<open>MaxSamples\<close> elements, in the
  order of recording, of the samples held before followed by the samples recorded
  (all of them while they are fewer): the oldest samples are the ones evicted.
\<close>

theorem RecordLatency_fifo:
  assumes "int (length (Samples m)) \<le> MaxSamples (Config m)"
    and "\<forall>c \<in> set calls. 0 < fst c"
  shows "\<exists>m'. record_all calls m = Done m' \<and>
           int (length (Samples m')) \<le> MaxSamples (Config m') \<and>
           Samples m' = last_n (nat (MaxSamples (Config m))) (Samples m @ map sample_of calls)"
proof -
  obtain m' where m': "record_all calls m = Done m'" "Config m' = Config m"
    "Samples m' = last_n (nat (MaxSamples (Config m))) (Samples m @ map sample_of calls)"
    using record_all_last_n [OF assms] by blast
  have "0 \<le> MaxSamples (Config m)" using assms(1) by linarith
  then have "int (length (Samples m')) \<le> MaxSamples (Config m')"
    using m'(2,3) length_last_n [of "nat (MaxSamples (Config m))" "Samples m @ map sample_of calls"]
    by simp
  then show ?thesis using m'(1,3) by blast
qed

theorem RecordLatency_fifo_witness:
  "int (length (Samples \<lparr>Config = \<lparr>ID = ''m'', Window = 60, Percentiles = [], MaxSamples = 2, CreatedAt = 0\<rparr>,
                        Samples = []\<rparr>)) \<le> 2 \<and>
   (0::int) < 10 \<and> (0::int) < 20 \<and> (0::int) < 30 \<and>
   record_all [(10, 1), (20, 2), (30, 3)]
     \<lparr>Config = \<lparr>ID = ''m'', Window = 60, Percentiles = [], MaxSamples = 2, CreatedAt = 0\<rparr>,
      Samples = []\<rparr> =
     Done \<lparr>Config = \<lparr>ID = ''m'', Window = 60, Percentiles = [], MaxSamples = 2, CreatedAt = 0\<rparr>,
           Samples = [\<lparr>LatencyVal = 20, RecordedAt = 2\<rparr>, \<lparr>LatencyVal = 30, RecordedAt = 3\<rparr>]\<rparr>"
  using RecordLatency_fifo [of
      "\<lparr>Config = \<lparr>ID = ''m'', Window = 60, Percentiles = [], MaxSamples = 2, CreatedAt = 0\<rparr>,
        Samples = []\<rparr>"
      "[(10, 1), (20, 2), (30, 3)]"]
  by (simp add: RecordLatency_def slice_from_1_def)

lemma getOrCreateMetric_found:
  assumes "map_lookup (Metrics (store \<sigma>)) key = Some p"
  shows "getOrCreateMetric key now \<sigma> = Done (p, \<sigma>)"
  using assms by (simp add: getOrCreateMetric_def)

lemma getOrCreateMetric_not_found:
  assumes "map_lookup (Metrics (store \<sigma>)) key = None"
  shows "getOrCreateMetric key now \<sigma> =
           Done (length (objects \<sigma>),
                 \<sigma>\<lparr>objects := objects \<sigma> @ [\<lparr>Config = defaultMetricConfig key now, Samples = []\<rparr>],
                   store := \<lparr>Metrics = Some [key \<mapsto> length (objects \<sigma>)]\<rparr>\<rparr>)"
  using assms by (simp add: getOrCreateMetric_def new_metric_def map_assign_def)

text \<open>
  C10: on the store that \<open>main\<close> builds, \<open>&MetricStore{}\<close> with a nil map, whatever
  objects are allocated, \<open>getOrCreateMetric\<close> does not panic: it makes a map before it
  assigns, and returns a pointer to a new metric with the default configuration and
  no samples, registered under the identifier.
\<close>

theorem getOrCreateMetric_nil_map:
  "getOrCreateMetric key now \<lparr>objects = objs, store = \<lparr>Metrics = None\<rparr>\<rparr> =
     Done (length objs,
           \<lparr>objects = objs @ [\<lparr>Config = defaultMetricConfig key now, Samples = []\<rparr>],
            store = \<lparr>Metrics = Some [key \<mapsto> length objs]\<rparr>\<rparr>) \<and>
   deref \<lparr>objects = objs @ [\<lparr>Config = defaultMetricConfig key now, Samples = []\<rparr>],
          store = \<lparr>Metrics = Some [key \<mapsto> length objs]\<rparr>\<rparr> (length objs) =
     Some \<lparr>Config = defaultMetricConfig key now, Samples = []\<rparr> \<and>
   getMetric key \<lparr>objects = objs @ [\<lparr>Config = defaultMetricConfig key now, Samples = []\<rparr>],
                  store = \<lparr>Metrics = Some [key \<mapsto> length objs]\<rparr>\<rparr> = Some (length objs)"
  by (simp add: getOrCreateMetric_def new_metric_def map_assign_def map_lookup_def
      deref_def getMetric_def)

text \<open>
  C1, at a store where a metric with one sample is registered under "a": the call
  of \<open>getOrCreateMetric\<close> for the absent identifier "b" returns the new metric, and
  the map it leaves holds "b" only. The metric of "a" is no longer registered.
\<close>

theorem getOrCreateMetric_drops_registered:
  "getMetric ''a'' \<lparr>objects = [\<lparr>Config = defaultMetricConfig ''a'' 0,
                                  Samples = [\<lparr>LatencyVal = 5, RecordedAt = 1\<rparr>]\<rparr>],
                     store = \<lparr>Metrics = Some [''a'' \<mapsto> 0]\<rparr>\<rparr> = Some 0 \<and>
   getMetric ''b'' \<lparr>objects = [\<lparr>Config = defaultMetricConfig ''a'' 0,
                                  Samples = [\<lparr>LatencyVal = 5, RecordedAt = 1\<rparr>]\<rparr>],
                     store = \<lparr>Metrics = Some [''a'' \<mapsto> 0]\<rparr>\<rparr> = None \<and>
   getOrCreateMetric ''b'' 2
     \<lparr>objects = [\<lparr>Config = defaultMetricConfig ''a'' 0,
                   Samples = [\<lparr>LatencyVal = 5, RecordedAt = 1\<rparr>]\<rparr>],
      store = \<lparr>Metrics = Some [''a'' \<mapsto> 0]\<rparr>\<rparr> =
     Done (1, \<lparr>objects = [\<lparr>Config = defaultMetricConfig ''a'' 0,
                             Samples = [\<lparr>LatencyVal = 5, RecordedAt = 1\<rparr>]\<rparr>,
                           \<lparr>Config = defaultMetricConfig ''b'' 2, Samples = []\<rparr>],
               store = \<lparr>Metrics = Some [''b'' \<mapsto> 1]\<rparr>\<rparr>) \<and>
   getMetric ''a'' \<lparr>objects = [\<lparr>Config = defaultMetricConfig ''a'' 0,
                                  Samples = [\<lparr>LatencyVal = 5, RecordedAt = 1\<rparr>]\<rparr>,
                                \<lparr>Config = defaultMetricConfig ''b'' 2, Samples = []\<rparr>],
                     store = \<lparr>Metrics = Some [''b'' \<mapsto> 1]\<rparr>\<rparr> = None"
  by (simp add: getOrCreateMetric_def new_metric_def map_assign_def map_lookup_def getMetric_def)

text \<open>
  C8 fails on the store with a nil map: with a valid configuration \<open>CreateMetric\<close>
  panics at the assignment, and so neither reports an error nor creates the metric.
\<close>

theorem CreateMetric_nil_map_panics:
  "0 < Window \<lparr>ID = ''m'', Window = 60, Percentiles = [], MaxSamples = 2, CreatedAt = 0\<rparr> \<and>
   0 < MaxSamples \<lparr>ID = ''m'', Window = 60, Percentiles = [], MaxSamples = 2, CreatedAt = 0\<rparr> \<and>
   CreateMetric \<lparr>ID = ''m'', Window = 60, Percentiles = [], MaxSamples = 2, CreatedAt = 0\<rparr>
     \<lparr>objects = [], store = \<lparr>Metrics = None\<rparr>\<rparr> = Panic NilMapWrite"
  by (simp add: CreateMetric_def new_metric_def map_assign_def)

text \<open>
  C8, for a store whose map has been made: a configuration with a window or a sample
  cap that is zero or negative is refused with an error and the memory is the one
  given, on every store, the nil map included. A valid configuration allocates a
  metric with that configuration and no samples, and the map is the old one with
  the configuration's identifier set to the new metric, whatever it held before.
\<close>

theorem CreateMetric_validates:
  "(Window config \<le> 0 \<or> MaxSamples config \<le> 0 \<longrightarrow>
      (\<exists>e. CreateMetric config \<sigma> = Done (Inl e, \<sigma>))) \<and>
   (0 < Window config \<and> 0 < MaxSamples config \<and> Metrics (store \<sigma>) = Some mp \<longrightarrow>
      CreateMetric config \<sigma> =
        Done (Inr (length (objects \<sigma>)),
              \<sigma>\<lparr>objects := objects \<sigma> @ [\<lparr>Config = config, Samples = []\<rparr>],
                store := \<lparr>Metrics = Some (mp(ID config \<mapsto> length (objects \<sigma>)))\<rparr>\<rparr>))"
  by (auto simp: CreateMetric_def new_metric_def map_assign_def)

theorem CreateMetric_validates_witness:
  "MaxSamples \<lparr>ID = ''a'', Window = 60, Percentiles = [], MaxSamples = 0, CreatedAt = 9\<rparr> \<le> 0 \<and>
   CreateMetric \<lparr>ID = ''a'', Window = 60, Percentiles = [], MaxSamples = 0, CreatedAt = 9\<rparr>
     \<lparr>objects = [\<lparr>Config = defaultMetricConfig ''a'' 0,
                   Samples = [\<lparr>LatencyVal = 5, RecordedAt = 1\<rparr>]\<rparr>],
      store = \<lparr>Metrics = Some [''a'' \<mapsto> 0]\<rparr>\<rparr> =
     Done (Inl MaxSamplesTooSmall,
           \<lparr>objects = [\<lparr>Config = defaultMetricConfig ''a'' 0,
                         Samples = [\<lparr>LatencyVal = 5, RecordedAt = 1\<rparr>]\<rparr>],
            store = \<lparr>Metrics = Some [''a'' \<mapsto> 0]\<rparr>\<rparr>) \<and>
   0 < Window \<lparr>ID = ''a'', Window = 60, Percentiles = [], MaxSamples = 2, CreatedAt = 9\<rparr> \<and>
   0 < MaxSamples \<lparr>ID = ''a'', Window = 60, Percentiles = [], MaxSamples = 2, CreatedAt = 9\<rparr> \<and>
   CreateMetric \<lparr>ID = ''a'', Window = 60, Percentiles = [], MaxSamples = 2, CreatedAt = 9\<rparr>
     \<lparr>objects = [\<lparr>Config = defaultMetricConfig ''a'' 0,
                   Samples = [\<lparr>LatencyVal = 5, RecordedAt = 1\<rparr>]\<rparr>],
      store = \<lparr>Metrics = Some [''a'' \<mapsto> 0]\<rparr>\<rparr> =
     Done (Inr 1,
           \<lparr>objects = [\<lparr>Config = defaultMetricConfig ''a'' 0,
                         Samples = [\<lparr>LatencyVal = 5, RecordedAt = 1\<rparr>]\<rparr>,
                       \<lparr>Config = \<lparr>ID = ''a'', Window = 60, Percentiles = [], MaxSamples = 2, CreatedAt = 9\<rparr>,
                         Samples = []\<rparr>],
            store = \<lparr>Metrics = Some ([''a'' \<mapsto> 0](''a'' \<mapsto> 1))\<rparr>\<rparr>)"
  using CreateMetric_validates [of
      "\<lparr>ID = ''a'', Window = 60, Percentiles = [], MaxSamples = 0, CreatedAt = 9\<rparr>"
      "\<lparr>objects = [\<lparr>Config = defaultMetricConfig ''a'' 0,
                    Samples = [\<lparr>LatencyVal = 5, RecordedAt = 1\<rparr>]\<rparr>],
        store = \<lparr>Metrics = Some [''a'' \<mapsto> 0]\<rparr>\<rparr>"]
    CreateMetric_validates [of
      "\<lparr>ID = ''a'', Window = 60, Percentiles = [], MaxSamples = 2, CreatedAt = 9\<rparr>"
      "\<lparr>objects = [\<lparr>Config = defaultMetricConfig ''a'' 0,
                    Samples = [\<lparr>LatencyVal = 5, RecordedAt = 1\<rparr>]\<rparr>],
        store = \<lparr>Metrics = Some [''a'' \<mapsto> 0]\<rparr>\<rparr>"
      "[''a'' \<mapsto> 0]"]
  by (simp add: CreateMetric_def new_metric_def map_assign_def)

section \<open>Floating point: results\<close>

lemma expo_bounds:
  "0 < x \<Longrightarrow> 2 powi (expo x) \<le> x \<and> x < 2 powi (expo x + 1)"
proof (induction x rule: expo.induct)
  case (1 x)
  show ?case
  proof (cases "2 \<le> x")
    case True
    then have e: "expo x = expo (x / 2) + 1" using 1(3) by (subst expo.simps) simp
    have ih: "2 powi (expo (x / 2)) \<le> x / 2 \<and> x / 2 < 2 powi (expo (x / 2) + 1)"
      using 1(1) True 1(3) by simp
    show ?thesis using ih unfolding e by (simp add: power_int_add)
  next
    case False
    show ?thesis
    proof (cases "x < 1")
      case True
      then have e: "expo x = expo (2 * x) - 1" using 1(3) False by (subst expo.simps) simp
      have ih: "2 powi (expo (2 * x)) \<le> 2 * x \<and> 2 * x < 2 powi (expo (2 * x) + 1)"
        using 1(2) True False 1(3) by simp
      show ?thesis using ih unfolding e by (simp add: power_int_add power_int_diff)
    next
      case f2: False
      then have e: "expo x = 0" using 1(3) False by (subst expo.simps) simp
      show ?thesis using False f2 unfolding e by simp
    qed
  qed
qed

lemma pow2_less_imp: "(2::rat) powi a < 2 powi b \<Longrightarrow> a < b"
proof (rule ccontr)
  assume h: "(2::rat) powi a < 2 powi b" and n: "\<not> a < b"
  from n have "b \<le> a" by simp
  then have "(2::rat) powi b \<le> 2 powi a" by (rule power_int_increasing) simp
  with h show False by simp
qed

lemma expo_unique:
  assumes "0 < x" "2 powi e \<le> x" "x < 2 powi (e + 1)"
  shows "expo x = e"
proof -
  have b: "2 powi (expo x) \<le> x" "x < 2 powi (expo x + 1)"
    using expo_bounds [OF assms(1)] by simp_all
  have "(2::rat) powi e < 2 powi (expo x + 1)" using assms(2) b(2) by simp
  then have 1: "e < expo x + 1" by (rule pow2_less_imp)
  have "(2::rat) powi (expo x) < 2 powi (e + 1)" using assms(3) b(1) by simp
  then have 2: "expo x < e + 1" by (rule pow2_less_imp)
  show ?thesis using 1 2 by simp
qed

lemma expo_mono:
  assumes "0 < x" "x \<le> y"
  shows "expo x \<le> expo y"
proof -
  have "2 powi (expo x) \<le> x" using expo_bounds [OF assms(1)] by simp
  moreover have "y < 2 powi (expo y + 1)" using expo_bounds [of y] assms by simp
  ultimately have "(2::rat) powi (expo x) < 2 powi (expo y + 1)" using assms(2) by linarith
  then have "expo x < expo y + 1" by (rule pow2_less_imp)
  then show ?thesis by simp
qed

lemma rne_near:
  assumes "\<bar>q - of_int n\<bar> < 1 / 2"
  shows "rne q = n"
proof -
  have "\<lfloor>q\<rfloor> = n \<or> \<lfloor>q\<rfloor> = n - 1" using assms by linarith
  then show ?thesis
  proof
    assume f: "\<lfloor>q\<rfloor> = n"
    then have "q - of_int n < 1 / 2" using assms by linarith
    then show ?thesis using f by (simp add: rne_def)
  next
    assume f: "\<lfloor>q\<rfloor> = n - 1"
    have "- (1 / 2) < q - of_int n" using assms by linarith
    then have "1 / 2 < q - (of_int n - 1)" by linarith
    then have up: "1 / 2 < q - of_int (n - 1)" by simp
    then have "\<not> q - of_int (n - 1) < 1 / 2" by linarith
    then show ?thesis using f up by (simp add: rne_def Let_def)
  qed
qed

lemma rne_of_int: "rne (of_int n) = n"
  by (rule rne_near) simp

lemma rne_cases: "rne q = \<lfloor>q\<rfloor> \<or> rne q = \<lfloor>q\<rfloor> + 1"
  by (simp add: rne_def Let_def)

lemma rne_mono:
  assumes "q1 \<le> q2"
  shows "rne q1 \<le> rne q2"
proof (cases "\<lfloor>q1\<rfloor> = \<lfloor>q2\<rfloor>")
  case True
  have "q1 - of_int \<lfloor>q1\<rfloor> \<le> q2 - of_int \<lfloor>q2\<rfloor>" using assms True by simp
  then show ?thesis using True by (auto simp: rne_def Let_def)
next
  case False
  have "\<lfloor>q1\<rfloor> \<le> \<lfloor>q2\<rfloor>" using assms by (rule floor_mono)
  then have "\<lfloor>q1\<rfloor> + 1 \<le> \<lfloor>q2\<rfloor>" using False by simp
  moreover have "rne q1 \<le> \<lfloor>q1\<rfloor> + 1" using rne_cases [of q1] by auto
  moreover have "\<lfloor>q2\<rfloor> \<le> rne q2" using rne_cases [of q2] by auto
  ultimately show ?thesis by simp
qed

lemma rne_ge: "of_int n \<le> q \<Longrightarrow> n \<le> rne q"
  using rne_mono [of "of_int n" q] by (simp add: rne_of_int)

lemma rne_le: "q \<le> of_int n \<Longrightarrow> rne q \<le> n"
  using rne_mono [of q "of_int n"] by (simp add: rne_of_int)

lemma fl_pos_bounds:
  assumes "0 < x"
  shows "2 powi (expo x) \<le> fl_pos x" and "fl_pos x \<le> 2 powi (expo x + 1)"
proof -
  let ?u = "(2::rat) powi (expo x - 52)"
  have u: "0 < ?u" by simp
  have b: "2 powi (expo x) \<le> x" "x < 2 powi (expo x + 1)"
    using expo_bounds [OF assms] by simp_all
  have lo: "(2::rat) powi (expo x) = 2 ^ 52 * ?u"
    by (simp add: power_int_diff)
  have hi: "(2::rat) powi (expo x + 1) = 2 ^ 53 * ?u"
    by (simp add: power_int_diff power_int_add)
  have "of_int (2 ^ 52) \<le> x / ?u" using b(1) u unfolding lo by (simp add: field_simps)
  then have "2 ^ 52 \<le> rne (x / ?u)" by (rule rne_ge)
  then have "(2::rat) ^ 52 \<le> of_int (rne (x / ?u))"
    by (metis of_int_le_iff of_int_numeral of_int_power)
  then have "2 ^ 52 * ?u \<le> of_int (rne (x / ?u)) * ?u" using u by simp
  then show "2 powi (expo x) \<le> fl_pos x" unfolding lo by (simp add: fl_pos_def Let_def)
  have "x / ?u \<le> of_int (2 ^ 53)" using b(2) u unfolding hi by (simp add: field_simps)
  then have "rne (x / ?u) \<le> 2 ^ 53" by (rule rne_le)
  then have "of_int (rne (x / ?u)) \<le> (2::rat) ^ 53"
    by (metis of_int_le_iff of_int_numeral of_int_power)
  then have "of_int (rne (x / ?u)) * ?u \<le> 2 ^ 53 * ?u" using u by simp
  then show "fl_pos x \<le> 2 powi (expo x + 1)" unfolding hi by (simp add: fl_pos_def Let_def)
qed

lemma fl_pos_pos: "0 < x \<Longrightarrow> 0 < fl_pos x"
proof -
  assume "0 < x"
  then have "2 powi (expo x) \<le> fl_pos x" by (rule fl_pos_bounds)
  moreover have "(0::rat) < 2 powi (expo x)" by simp
  ultimately show ?thesis by linarith
qed

lemma fl_pos_mono:
  assumes "0 < x" "x \<le> y"
  shows "fl_pos x \<le> fl_pos y"
proof (cases "expo x = expo y")
  case True
  let ?u = "(2::rat) powi (expo y - 52)"
  have u: "0 < ?u" by simp
  have "x / ?u \<le> y / ?u" using assms(2) u by (simp add: divide_right_mono)
  then have "rne (x / ?u) \<le> rne (y / ?u)" by (rule rne_mono)
  then have "(of_int (rne (x / ?u)) :: rat) \<le> of_int (rne (y / ?u))" by simp
  then have "of_int (rne (x / ?u)) * ?u \<le> of_int (rne (y / ?u)) * ?u"
    using u by (simp add: mult_right_mono)
  then show ?thesis using True by (simp add: fl_pos_def Let_def)
next
  case False
  then have "expo x + 1 \<le> expo y" using expo_mono [OF assms] by simp
  then have "(2::rat) powi (expo x + 1) \<le> 2 powi (expo y)"
    by (rule power_int_increasing) simp
  moreover have "fl_pos x \<le> 2 powi (expo x + 1)" using assms(1) by (rule fl_pos_bounds)
  moreover have "2 powi (expo y) \<le> fl_pos y" using assms by (intro fl_pos_bounds) simp
  ultimately show ?thesis by linarith
qed

text \<open>Rounding keeps the order: a larger exact result never rounds to a smaller number.\<close>

lemma fl_mono:
  assumes "x \<le> y"
  shows "fl x \<le> fl y"
proof -
  consider "0 < x" | "x = 0" | "x < 0" "0 \<le> y" | "x < 0" "y < 0" by linarith
  then show ?thesis
  proof cases
    case 1
    then show ?thesis using assms fl_pos_mono [of x y] by (simp add: fl_def)
  next
    case 2
    then show ?thesis using assms fl_pos_pos [of y] by (auto simp: fl_def)
  next
    case 3
    have "fl x < 0" using 3(1) fl_pos_pos [of "- x"] by (simp add: fl_def)
    moreover have "0 \<le> fl y" using 3(2) fl_pos_pos [of y] by (auto simp: fl_def)
    ultimately show ?thesis by simp
  next
    case 4
    have "fl_pos (- y) \<le> fl_pos (- x)" using 4 assms by (intro fl_pos_mono) simp_all
    then show ?thesis using 4 by (simp add: fl_def)
  qed
qed

lemma fl_minus: "fl (- x) = - fl x"
  by (simp add: fl_def)

text \<open>
  How a rounding is computed by hand: for a positive \<open>x\<close> with exponent \<open>e\<close>, the
  integer \<open>m\<close> within a half of \<open>x / 2 powi (e - 52)\<close> is the significand of \<open>fl x\<close>.
\<close>

lemma fl_eq:
  assumes "0 < x" "2 powi e \<le> x" "x < 2 powi (e + 1)"
    and "\<bar>x / 2 powi (e - 52) - of_int m\<bar> < 1 / 2"
  shows "fl x = of_int m * 2 powi (e - 52)"
proof -
  have "expo x = e" using assms(1-3) by (rule expo_unique)
  then have "fl_pos x = of_int m * 2 powi (e - 52)"
    using rne_near [OF assms(4)] by (simp add: fl_pos_def Let_def)
  then show ?thesis using assms(1) by (simp add: fl_def)
qed

section \<open>Percentiles: results\<close>

lemma computePercentile_index:
  assumes "latencies \<noteq> []"
  shows "\<exists>i < length latencies. computePercentile impl latencies p = Done (Some (latencies ! i))"
proof -
  let ?N = "int (length latencies)"
  let ?raw = "int_sub (int_of_float64 impl (math_Ceil (float64_mul
                (float64_div (float64_of_int p) 100) (float64_of_int ?N)))) 1"
  let ?low = "if ?raw < 0 then 0 else ?raw"
  let ?idx = "if ?N \<le> ?low then ?N - 1 else ?low"
  have N: "0 < ?N" using assms by simp
  have range: "0 \<le> ?idx \<and> ?idx < ?N" using N by auto
  then have "index latencies ?idx = Done (latencies ! nat ?idx)" by (simp add: index_def)
  then have "computePercentile impl latencies p = Done (Some (latencies ! nat ?idx))"
    using N by (simp add: computePercentile_def Let_def)
  moreover have "nat ?idx < length latencies" using range by linarith
  ultimately show ?thesis by blast
qed

lemma computePercentile_empty: "computePercentile impl [] p = Done None"
  by (simp add: computePercentile_def)

lemma computePercentile_single: "computePercentile impl [v] p = Done (Some v)"
  using computePercentile_index [of "[v]" impl p] by auto

lemma fl_exact_pos:
  assumes "0 < n" "n < 2 ^ 53"
  shows "fl (of_int n * 2 powi j) = of_int n * 2 powi j"
proof -
  let ?x = "(of_int n :: rat) * 2 powi j"
  have x0: "0 < ?x" using assms(1) by simp
  have b: "2 powi (expo ?x) \<le> ?x" "?x < 2 powi (expo ?x + 1)"
    using expo_bounds [OF x0] by simp_all
  have "(of_int n :: rat) < of_int (2 ^ 53)" using assms(2) by (simp only: of_int_less_iff)
  then have "(of_int n :: rat) < 2 ^ 53" by simp
  then have "?x < 2 ^ 53 * 2 powi j" by simp
  also have "\<dots> = 2 powi (53 + j)" by (simp add: power_int_add)
  finally have "(2::rat) powi (expo ?x) < 2 powi (53 + j)" using b(1) by linarith
  then have "expo ?x < 53 + j" by (rule pow2_less_imp)
  then obtain k :: nat where k: "j - (expo ?x - 52) = int k"
    using zero_le_imp_eq_int [of "j - (expo ?x - 52)"] by auto
  have "?x / 2 powi (expo ?x - 52) = of_int n * 2 powi (j - (expo ?x - 52))"
    by (simp add: power_int_diff)
  also have "\<dots> = of_int (n * 2 ^ k)" unfolding k by simp
  finally have q: "?x / 2 powi (expo ?x - 52) = of_int (n * 2 ^ k)" .
  have "fl_pos ?x = of_int (n * 2 ^ k) * 2 powi (expo ?x - 52)"
    unfolding fl_pos_def Let_def q rne_of_int ..
  also have "\<dots> = of_int n * (2 powi (int k) * 2 powi (expo ?x - 52))" by simp
  also have "2 powi (int k) * (2::rat) powi (expo ?x - 52) = 2 powi j"
    unfolding k [symmetric] by (simp flip: power_int_add)
  finally have "fl_pos ?x = ?x" .
  then show ?thesis using x0 by (simp add: fl_def)
qed

lemma fl_exact:
  assumes "\<bar>n\<bar> < 2 ^ 53"
  shows "fl (of_int n * 2 powi j) = of_int n * 2 powi j"
proof -
  consider "0 < n" | "n = 0" | "n < 0" by linarith
  then show ?thesis
  proof cases
    case 1
    then show ?thesis using assms fl_exact_pos [of n j] by simp
  next
    case 2
    then show ?thesis by (simp add: fl_def)
  next
    case 3
    then have "fl (of_int (- n) * 2 powi j) = of_int (- n) * 2 powi j"
      using assms by (intro fl_exact_pos) simp_all
    then show ?thesis using fl_minus [of "of_int n * 2 powi j"] by simp
  qed
qed

lemma fl_of_int:
  assumes "\<bar>n\<bar> < 2 ^ 53"
  shows "fl (of_int n) = of_int n"
  using fl_exact [OF assms, of 0] by simp

lemma float64_of_int_small: "\<bar>n\<bar> < 2 ^ 53 \<Longrightarrow> float64_of_int n = of_int n"
  by (simp add: float64_of_int_def fl_of_int)

lemma float64_of_int_nonneg: "0 \<le> n \<Longrightarrow> 0 \<le> float64_of_int n"
proof -
  assume "0 \<le> n"
  then have "fl 0 \<le> fl (of_int n)" by (intro fl_mono) simp
  then show ?thesis by (simp add: float64_of_int_def fl_def)
qed

lemma rank_ceiling_mono:
  assumes "p1 \<le> p2"
  shows "rank_ceiling p1 N \<le> rank_ceiling p2 N"
proof -
  let ?c = "float64_of_int (int N)"
  have c: "0 \<le> ?c" by (rule float64_of_int_nonneg) simp
  have "float64_of_int p1 \<le> float64_of_int p2"
    using assms by (simp add: float64_of_int_def fl_mono)
  then have "float64_of_int p1 / 100 \<le> float64_of_int p2 / 100" by simp
  then have "float64_div (float64_of_int p1) 100 \<le> float64_div (float64_of_int p2) 100"
    unfolding float64_div_def by (rule fl_mono)
  then have "float64_div (float64_of_int p1) 100 * ?c \<le> float64_div (float64_of_int p2) 100 * ?c"
    using c by (rule mult_right_mono)
  then have "float64_mul (float64_div (float64_of_int p1) 100) ?c
               \<le> float64_mul (float64_div (float64_of_int p2) 100) ?c"
    unfolding float64_mul_def by (rule fl_mono)
  then show ?thesis unfolding rank_ceiling_def by (rule ceiling_mono)
qed

lemma wrap64_id: "- (2 ^ 63) \<le> i \<Longrightarrow> i < 2 ^ 63 \<Longrightarrow> wrap64 i = i"
  by (simp add: wrap64_def)

lemma int_of_float64_of_int:
  assumes "- (2 ^ 63) \<le> c" "c < 2 ^ 63"
  shows "int_of_float64 impl (of_int c) = c"
proof -
  have "(of_int (- (2 ^ 63)) :: rat) \<le> of_int c" using assms(1) by (simp only: of_int_le_iff)
  moreover have "(of_int c :: rat) < of_int (2 ^ 63)" using assms(2) by (simp only: of_int_less_iff)
  ultimately show ?thesis by (simp add: int_of_float64_def)
qed

lemma computePercentile_in_range:
  assumes "latencies \<noteq> []"
    and "- (2 ^ 63) \<le> rank_ceiling p (length latencies)"
    and "rank_ceiling p (length latencies) < 2 ^ 63"
  shows "computePercentile impl latencies p =
           Done (Some (latencies ! nat (max 0 (min (int (length latencies) - 1)
                   (wrap64 (rank_ceiling p (length latencies) - 1))))))"
proof -
  let ?N = "int (length latencies)"
  let ?c = "rank_ceiling p (length latencies)"
  let ?raw = "wrap64 (?c - 1)"
  let ?idx = "max 0 (min (?N - 1) ?raw)"
  have N: "0 < ?N" using assms(1) by simp
  have conv: "int_of_float64 impl (math_Ceil (float64_mul
                (float64_div (float64_of_int p) 100) (float64_of_int ?N))) = ?c"
    using int_of_float64_of_int [OF assms(2,3)] by (simp add: math_Ceil_def rank_ceiling_def)
  have clamp: "(if ?N \<le> (if ?raw < 0 then 0 else ?raw) then ?N - 1
                else (if ?raw < 0 then 0 else ?raw)) = ?idx"
    using N by auto
  have "0 \<le> ?idx \<and> ?idx < ?N" using N by auto
  then have "index latencies ?idx = Done (latencies ! nat ?idx)" by (simp add: index_def)
  then show ?thesis
    using N unfolding computePercentile_def Let_def conv int_sub_def clamp by simp
qed

text \<open>
  The roundings of the examples below, each computed by hand and checked with \<open>fl_eq\<close>,
  \<open>fl_exact\<close> or \<open>fl_between\<close>.
\<close>

lemma fl_7_100: "fl (7 / 100) = 5044031582654956 / 2 ^ 56"
  using fl_eq [of "7 / 100" "- 4" 5044031582654956] by simp

lemma fl_7_100_times_100: "fl (5044031582654956 / 2 ^ 56 * 100) = 7 + 1 / 2 ^ 50"
  using fl_eq [of "5044031582654956 / 2 ^ 56 * 100" 2 "7 * 2 ^ 50 + 1"] by simp

lemma rank_ceiling_7_100: "rank_ceiling 7 100 = 8"
proof -
  have "float64_of_int 7 = 7" using float64_of_int_small [of 7] by simp
  moreover have "float64_of_int (int 100) = 100" using float64_of_int_small [of 100] by simp
  ultimately have "float64_mul (float64_div (float64_of_int 7) 100) (float64_of_int (int 100))
      = 7 + 1 / 2 ^ 50"
    by (simp only: float64_mul_def float64_div_def fl_7_100 fl_7_100_times_100)
  then have "rank_ceiling 7 100 = \<lceil>(7 + 1 / 2 ^ 50 :: rat)\<rceil>"
    by (simp only: rank_ceiling_def)
  also have "\<dots> = 8" by (simp add: ceiling_eq_iff)
  finally show ?thesis .
qed

lemma fl_1_2: "fl (50 / 100) = 1 / 2"
  using fl_exact [of 1 "- 1"] by simp






lemma fl_between:
  assumes "lo \<le> x" "x \<le> hi" "fl lo = lo" "fl hi = hi"
  shows "lo \<le> fl x \<and> fl x \<le> hi"
  using fl_mono [OF assms(1)] fl_mono [OF assms(2)] assms(3,4) by simp

lemma fl_95_100: "fl (95 / 100) = 8556839292003942 / 2 ^ 53"
proof -
  have "fl (95 / 100) = of_int 8556839292003942 * 2 powi (- 1 - 52)"
    by (rule fl_eq) simp_all
  then show ?thesis by simp
qed

lemma fl_99_100: "fl (99 / 100) = 8917127262193582 / 2 ^ 53"
proof -
  have "fl (99 / 100) = of_int 8917127262193582 * 2 powi (- 1 - 52)"
    by (rule fl_eq) simp_all
  then show ?thesis by simp
qed

lemma fl_5_2: "fl (5 / 2) = 5 / 2"
  using fl_exact [of 5 "- 1"] by simp

lemma fl_3: "fl 3 = 3"
  using fl_of_int [of 3] by simp

lemma fl_3_2: "fl (1 / 2 * 3) = 3 / 2"
  using fl_exact [of 3 "- 1"] by simp

lemma rank_ceiling_50_3: "rank_ceiling 50 3 = 2"
proof -
  have "float64_of_int 50 = 50" using float64_of_int_small [of 50] by simp
  moreover have "float64_of_int (int 3) = 3" using float64_of_int_small [of 3] by simp
  ultimately have "float64_mul (float64_div (float64_of_int 50) 100) (float64_of_int (int 3))
      = 3 / 2"
    by (simp only: float64_mul_def float64_div_def fl_1_2 fl_3_2)
  then have "rank_ceiling 50 3 = \<lceil>(3 / 2 :: rat)\<rceil>" by (simp only: rank_ceiling_def)
  also have "\<dots> = 2" by (simp add: ceiling_eq_iff)
  finally show ?thesis .
qed

lemma rank_ceiling_95_3: "rank_ceiling 95 3 = 3"
proof -
  have "float64_of_int 95 = 95" using float64_of_int_small [of 95] by simp
  moreover have "float64_of_int (int 3) = 3" using float64_of_int_small [of 3] by simp
  ultimately have e: "float64_mul (float64_div (float64_of_int 95) 100) (float64_of_int (int 3))
      = fl (8556839292003942 / 2 ^ 53 * 3)"
    by (simp only: float64_mul_def float64_div_def fl_95_100)
  have "5 / 2 \<le> fl (8556839292003942 / 2 ^ 53 * 3) \<and> fl (8556839292003942 / 2 ^ 53 * 3) \<le> 3"
    by (rule fl_between [OF _ _ fl_5_2 fl_3]) simp_all
  then have "\<lceil>fl (8556839292003942 / 2 ^ 53 * 3)\<rceil> = 3" by (simp add: ceiling_eq_iff)
  then show ?thesis by (simp only: rank_ceiling_def e)
qed

lemma rank_ceiling_99_3: "rank_ceiling 99 3 = 3"
proof -
  have "float64_of_int 99 = 99" using float64_of_int_small [of 99] by simp
  moreover have "float64_of_int (int 3) = 3" using float64_of_int_small [of 3] by simp
  ultimately have e: "float64_mul (float64_div (float64_of_int 99) 100) (float64_of_int (int 3))
      = fl (8917127262193582 / 2 ^ 53 * 3)"
    by (simp only: float64_mul_def float64_div_def fl_99_100)
  have "5 / 2 \<le> fl (8917127262193582 / 2 ^ 53 * 3) \<and> fl (8917127262193582 / 2 ^ 53 * 3) \<le> 3"
    by (rule fl_between [OF _ _ fl_5_2 fl_3]) simp_all
  then have "\<lceil>fl (8917127262193582 / 2 ^ 53 * 3)\<rceil> = 3" by (simp add: ceiling_eq_iff)
  then show ?thesis by (simp only: rank_ceiling_def e)
qed


lemma fl_5_100: "fl (- 5 / 100) = - (7205759403792794 / 2 ^ 57)"
proof -
  have "fl (5 / 100) = of_int 7205759403792794 * 2 powi (- 5 - 52)"
    by (rule fl_eq) simp_all
  then show ?thesis using fl_minus [of "5 / 100"] by simp
qed

lemma rank_ceiling_neg5_3: "rank_ceiling (- 5) 3 = 0"
proof -
  have "float64_of_int (- 5) = - 5" using float64_of_int_small [of "- 5"] by simp
  moreover have "float64_of_int (int 3) = 3" using float64_of_int_small [of 3] by simp
  ultimately have e: "float64_mul (float64_div (float64_of_int (- 5)) 100) (float64_of_int (int 3))
      = fl (- (7205759403792794 / 2 ^ 57) * 3)"
    by (simp only: float64_mul_def float64_div_def fl_5_100)
  have lo: "fl (- (1 / 2)) = - (1 / 2)" using fl_exact [of "- 1" "- 1"] by simp
  have hi: "fl (- (1 / 8)) = - (1 / 8)" using fl_exact [of "- 1" "- 3"] by simp
  have "- (1 / 2) \<le> fl (- (7205759403792794 / 2 ^ 57) * 3) \<and>
        fl (- (7205759403792794 / 2 ^ 57) * 3) \<le> - (1 / 8)"
    by (rule fl_between [OF _ _ lo hi]) simp_all
  then have "\<lceil>fl (- (7205759403792794 / 2 ^ 57) * 3)\<rceil> = 0" by (simp add: ceiling_eq_iff)
  then show ?thesis by (simp only: rank_ceiling_def e)
qed

lemma rank_ceiling_250_3: "rank_ceiling 250 3 = 8"
proof -
  have "float64_of_int 250 = 250" using float64_of_int_small [of 250] by simp
  moreover have "float64_of_int (int 3) = 3" using float64_of_int_small [of 3] by simp
  moreover have "fl (250 / 100) = 5 / 2" using fl_5_2 by simp
  moreover have "fl (5 / 2 * 3) = 15 / 2" using fl_exact [of 15 "- 1"] by simp
  ultimately have "float64_mul (float64_div (float64_of_int 250) 100) (float64_of_int (int 3))
      = 15 / 2"
    by (simp only: float64_mul_def float64_div_def)
  then have "rank_ceiling 250 3 = \<lceil>(15 / 2 :: rat)\<rceil>" by (simp only: rank_ceiling_def)
  also have "\<dots> = 8" by (simp add: ceiling_eq_iff)
  finally show ?thesis .
qed

lemma computePercentile_outside:
  "computePercentile impl [10, 20, 30] (- 5) = Done (Some 10)"
  "computePercentile impl [10, 20, 30] 250 = Done (Some 30)"
proof -
  have ne: "[10, 20, 30] \<noteq> ([] :: int list)" by simp
  have len: "length [10, 20, 30 :: int] = 3" by simp
  show "computePercentile impl [10, 20, 30] (- 5) = Done (Some 10)"
    using computePercentile_in_range [OF ne, of "- 5" impl]
    unfolding len rank_ceiling_neg5_3 by (simp add: wrap64_def)
  show "computePercentile impl [10, 20, 30] 250 = Done (Some 30)"
    using computePercentile_in_range [OF ne, of 250 impl]
    unfolding len rank_ceiling_250_3 by (simp add: wrap64_def)
qed

text \<open>
  C2, at the hundred sorted durations 1, ..., 100 and the percentile 7: the rule of
  the specification selects index \<open>ceil(0.07 * 100) - 1 = 6\<close>, the duration 7. The
  source computes in \<open>float64\<close>: the quotient \<open>7 / 100\<close> rounds up, its product with
  100 rounds to \<open>7 + 1 / 2 ^ 50\<close>, the ceiling is 8, and the duration returned is 8.
\<close>

theorem computePercentile_rounds_up:
  "computePercentile int_indefinite [1..100] 7 = Done (Some 8) \<and>
   nearest_rank [1..100] 7 = 7"
proof -
  have ne: "[1..100] \<noteq> []" by simp
  have len: "length [1..100] = 100" by simp
  have a: "computePercentile int_indefinite [1..100] 7 = Done (Some 8)"
    using computePercentile_in_range [OF ne, of 7 int_indefinite]
    unfolding len rank_ceiling_7_100 by (simp add: wrap64_def)
  have b: "nearest_rank [1..100] 7 = 7"
    by (simp add: nearest_rank_def nearest_rank_index_def)
  show ?thesis using a b by simp
qed

text \<open>
  C9: on an input that is not empty, for every percentile argument and whatever the
  implementation returns for a conversion out of range, \<open>computePercentile\<close> does
  not panic and returns an element of the input.
\<close>

theorem computePercentile_total:
  assumes "latencies \<noteq> []"
  shows "\<exists>v. computePercentile impl latencies p = Done (Some v) \<and> v \<in> set latencies"
proof -
  obtain i where "i < length latencies"
    "computePercentile impl latencies p = Done (Some (latencies ! i))"
    using computePercentile_index [OF assms] by blast
  then show ?thesis by auto
qed

theorem computePercentile_total_witness:
  "[10, 20, 30 :: int] \<noteq> [] \<and>
   computePercentile int_indefinite [10, 20, 30] (- 5) = Done (Some 10) \<and>
   10 \<in> set [10, 20, 30 :: int] \<and>
   computePercentile int_indefinite [10, 20, 30] 250 = Done (Some 30) \<and>
   30 \<in> set [10, 20, 30 :: int]"
  using computePercentile_total [of "[10, 20, 30]" int_indefinite "- 5"]
    computePercentile_total [of "[10, 20, 30]" int_indefinite 250]
  by (simp add: computePercentile_outside)

lemma computePercentile_monotonic_in_range:
  assumes "sorted latencies" and "latencies \<noteq> []" and "p1 \<le> p2"
    and "- (2 ^ 63) < rank_ceiling p1 (length latencies)"
    and "rank_ceiling p2 (length latencies) < 2 ^ 63"
  shows "\<exists>v1 v2. computePercentile impl latencies p1 = Done (Some v1) \<and>
                  computePercentile impl latencies p2 = Done (Some v2) \<and> v1 \<le> v2"
proof -
  let ?N = "int (length latencies)"
  let ?c1 = "rank_ceiling p1 (length latencies)"
  let ?c2 = "rank_ceiling p2 (length latencies)"
  let ?i1 = "max 0 (min (?N - 1) (wrap64 (?c1 - 1)))"
  let ?i2 = "max 0 (min (?N - 1) (wrap64 (?c2 - 1)))"
  have N: "0 < ?N" using assms(2) by simp
  have c: "?c1 \<le> ?c2" using assms(3) by (rule rank_ceiling_mono)
  have r1: "computePercentile impl latencies p1 = Done (Some (latencies ! nat ?i1))"
    using assms(2,4,5) c by (intro computePercentile_in_range) simp_all
  have r2: "computePercentile impl latencies p2 = Done (Some (latencies ! nat ?i2))"
    using assms(2,4,5) c by (intro computePercentile_in_range) simp_all
  have w1: "wrap64 (?c1 - 1) = ?c1 - 1" using assms(4,5) c by (intro wrap64_id) simp_all
  have w2: "wrap64 (?c2 - 1) = ?c2 - 1" using assms(4,5) c by (intro wrap64_id) simp_all
  have "?i1 \<le> ?i2" unfolding w1 w2 using c by simp
  then have le: "nat ?i1 \<le> nat ?i2" by simp
  have "0 \<le> ?i2 \<and> ?i2 < ?N" using N by auto
  then have lt: "nat ?i2 < length latencies" by linarith
  have "latencies ! nat ?i1 \<le> latencies ! nat ?i2"
    using assms(1) le lt by (rule sorted_nth_mono)
  then show ?thesis using r1 r2 by blast
qed




section \<open>Snapshots: results\<close>

lemma collect_active_filter:
  "collect_active cutoff samples active = active @ filter (\<lambda>s. cutoff < RecordedAt s) samples"
  by (induction samples arbitrary: active) (simp_all add: After_def)

lemma collect_latencies_map:
  "collect_latencies active latencies = latencies @ map LatencyVal active"
  by (induction active arbitrary: latencies) simp_all

lemma CalculateLatency_eq:
  fixes m now impl
  defines "act \<equiv> filter (\<lambda>s. now - Window (Config m) < RecordedAt s) (Samples m)"
  shows "\<exists>p50 p95 p99.
           computePercentile impl (sort (map LatencyVal act)) 50 = Done p50 \<and>
           computePercentile impl (sort (map LatencyVal act)) 95 = Done p95 \<and>
           computePercentile impl (sort (map LatencyVal act)) 99 = Done p99 \<and>
           CalculateLatency impl now m =
             Done \<lparr>MetricID = ID (Config m), SnapshotWindow = Window (Config m),
                   Count = length act, P50 = p50, P95 = p95, P99 = p99\<rparr>"
proof (cases "act = []")
  case True
  then show ?thesis
    unfolding act_def
    by (simp add: CalculateLatency_def Add_def collect_active_filter computePercentile_empty)
next
  case False
  let ?lat = "sort (map LatencyVal act)"
  have ne: "?lat \<noteq> []" using False by (metis length_map length_sort list.size(3) length_0_conv)
  obtain v50 where v50: "computePercentile impl ?lat 50 = Done (Some v50)"
    using computePercentile_index [OF ne] by blast
  obtain v95 where v95: "computePercentile impl ?lat 95 = Done (Some v95)"
    using computePercentile_index [OF ne] by blast
  obtain v99 where v99: "computePercentile impl ?lat 99 = Done (Some v99)"
    using computePercentile_index [OF ne] by blast
  have "CalculateLatency impl now m =
          Done \<lparr>MetricID = ID (Config m), SnapshotWindow = Window (Config m),
                Count = length act, P50 = Some v50, P95 = Some v95, P99 = Some v99\<rparr>"
    using False v50 v95 v99 unfolding act_def
    by (simp add: CalculateLatency_def Add_def collect_active_filter collect_latencies_map Let_def)
  then show ?thesis using v50 v95 v99 by blast
qed




text \<open>
  Conversely, with a sample inside the window the three percentiles are present, so
  a nil percentile means no data, and a duration of zero is a value.
\<close>

lemma CalculateLatency_present:
  assumes "filter (\<lambda>s. now - Window (Config m) < RecordedAt s) (Samples m) \<noteq> []"
  shows "\<exists>v50 v95 v99. CalculateLatency impl now m =
           Done \<lparr>MetricID = ID (Config m), SnapshotWindow = Window (Config m),
                 Count = length (filter (\<lambda>s. now - Window (Config m) < RecordedAt s) (Samples m)),
                 P50 = Some v50, P95 = Some v95, P99 = Some v99\<rparr>"
proof -
  let ?act = "filter (\<lambda>s. now - Window (Config m) < RecordedAt s) (Samples m)"
  let ?lat = "sort (map LatencyVal ?act)"
  have ne: "?lat \<noteq> []" using assms by (metis length_map length_sort length_0_conv)
  obtain p50 p95 p99 where p:
    "computePercentile impl ?lat 50 = Done p50"
    "computePercentile impl ?lat 95 = Done p95"
    "computePercentile impl ?lat 99 = Done p99"
    "CalculateLatency impl now m =
       Done \<lparr>MetricID = ID (Config m), SnapshotWindow = Window (Config m),
             Count = length ?act, P50 = p50, P95 = p95, P99 = p99\<rparr>"
    using CalculateLatency_eq [of impl now m] by blast
  obtain v50 where "p50 = Some v50" using computePercentile_index [OF ne, of impl 50] p(1) by auto
  moreover obtain v95 where "p95 = Some v95" using computePercentile_index [OF ne, of impl 95] p(2) by auto
  moreover obtain v99 where "p99 = Some v99" using computePercentile_index [OF ne, of impl 99] p(3) by auto
  ultimately show ?thesis using p(4) by blast
qed

text \<open>
  The scenario of the specification: three samples of 10, 20 and 30 milliseconds
  inside the window give a count of 3 and the percentiles 20, 30 and 30 milliseconds.
\<close>

lemma snapshot_scenario:
  "CalculateLatency impl 4
     \<lparr>Config = defaultMetricConfig ''checkout'' 0,
      Samples = [\<lparr>LatencyVal = 10000000, RecordedAt = 1\<rparr>,
                 \<lparr>LatencyVal = 20000000, RecordedAt = 2\<rparr>,
                 \<lparr>LatencyVal = 30000000, RecordedAt = 3\<rparr>]\<rparr> =
   Done \<lparr>MetricID = ''checkout'', SnapshotWindow = 60000000000, Count = 3,
         P50 = Some 20000000, P95 = Some 30000000, P99 = Some 30000000\<rparr>"
proof -
  have ne: "[10000000, 20000000, 30000000] \<noteq> ([] :: int list)" by simp
  have len: "length [10000000, 20000000, 30000000 :: int] = 3" by simp
  have a: "computePercentile impl [10000000, 20000000, 30000000] 50 = Done (Some 20000000)"
    using computePercentile_in_range [OF ne, of 50 impl]
    unfolding len rank_ceiling_50_3 by (simp add: wrap64_def)
  have b: "computePercentile impl [10000000, 20000000, 30000000] 95 = Done (Some 30000000)"
    using computePercentile_in_range [OF ne, of 95 impl]
    unfolding len rank_ceiling_95_3 by (simp add: wrap64_def)
  have c: "computePercentile impl [10000000, 20000000, 30000000] 99 = Done (Some 30000000)"
    using computePercentile_in_range [OF ne, of 99 impl]
    unfolding len rank_ceiling_99_3 by (simp add: wrap64_def)
  show ?thesis
    by (simp add: CalculateLatency_def Add_def After_def defaultMetricConfig_def a b c)
qed

section \<open>The percentiles of a snapshot\<close>

text \<open>
  When the quotient \<open>p / 100\<close> rounds down, or is a \<open>float64\<close>, the rank computed in
  \<open>float64\<close> is the exact one, for up to \<open>2 ^ 40\<close> values: the product is below the
  exact product by less than \<open>2 ^ 40 / 2 ^ 53\<close>, the exact product is above the integer
  below its ceiling by a hundredth at least, and the rounding keeps the order.
\<close>

lemma rank_ceiling_exact:
  assumes p: "0 \<le> p" "p \<le> 100"
    and c: "fl (of_int p / 100) = c" "c \<le> of_int p / 100" "of_int p / 100 - c \<le> 1 / 2 ^ 53"
    and N: "N \<le> 2 ^ 40"
  shows "rank_ceiling p N = \<lceil>(of_int p / 100) * (of_nat N :: rat)\<rceil>"
proof -
  let ?x = "(of_int p / 100) * (of_nat N :: rat)"
  let ?q = "c * (of_nat N :: rat)"
  define k where "k = \<lceil>?x\<rceil>"
  have Nr: "(of_nat N :: rat) \<le> 2 ^ 40"
    using N by (metis of_nat_le_iff of_nat_numeral of_nat_power)
  have N0: "(0::rat) \<le> of_nat N" by simp
  have x0: "0 \<le> ?x" using p(1) by simp
  have "?x \<le> 1 * of_nat N" using p(2) N0 by (intro mult_right_mono) simp_all
  then have xhi: "?x \<le> 2 ^ 40" using Nr by simp
  have k_lo: "of_int k - 1 < ?x" and k_hi: "?x \<le> of_int k"
    unfolding k_def by linarith+
  have k0: "0 \<le> k" using x0 k_hi by linarith
  have "of_int k < (2 ^ 40 + 1 :: rat)" using k_lo xhi by linarith
  then have "of_int k < (of_int (2 ^ 40 + 1) :: rat)" by simp
  then have khi: "k < 2 ^ 40 + 1" by (simp only: of_int_less_iff)
  have fp: "float64_of_int p = of_int p"
    using p by (intro float64_of_int_small) simp
  have fN: "float64_of_int (int N) = of_nat N"
  proof -
    have "\<bar>int N\<bar> < 2 ^ 53" using N by simp
    then show ?thesis using float64_of_int_small [of "int N"] by simp
  qed
  have r: "rank_ceiling p N = \<lceil>fl ?q\<rceil>"
    by (simp only: rank_ceiling_def fp fN float64_div_def float64_mul_def c(1))
  have q_le: "?q \<le> ?x" using c(2) N0 by (rule mult_right_mono)
  have "?x - ?q = (of_int p / 100 - c) * of_nat N" by (simp add: algebra_simps)
  also have "\<dots> \<le> (1 / 2 ^ 53) * 2 ^ 40"
    using c(2,3) N0 Nr by (intro mult_mono) simp_all
  finally have q_ge: "?x - 1 / 2 ^ 13 \<le> ?q" by simp
  have "of_int (100 * (k - 1)) < (of_int (p * int N) :: rat)" using k_lo by simp
  then have "100 * (k - 1) < p * int N" by (simp only: of_int_less_iff)
  then have "100 * (k - 1) + 1 \<le> p * int N" by simp
  then have "(of_int (100 * (k - 1) + 1) :: rat) \<le> of_int (p * int N)"
    by (simp only: of_int_le_iff)
  then have x_ge: "of_int k - 1 + 1 / 100 \<le> ?x" by simp
  let ?a = "(of_int (128 * (k - 1) + 1) :: rat) * 2 powi (- 7)"
  have a_eq: "?a = of_int k - 1 + 1 / 128" by simp
  have "\<bar>128 * (k - 1) + 1\<bar> < 2 ^ 53" using k0 khi by simp
  then have fa: "fl ?a = ?a" by (rule fl_exact)
  have "\<bar>k\<bar> < 2 ^ 53" using k0 khi by simp
  then have fk: "fl (of_int k) = of_int k" by (rule fl_of_int)
  have "?a \<le> ?q" using q_ge x_ge unfolding a_eq by simp
  moreover have "?q \<le> of_int k" using q_le k_hi by linarith
  ultimately have "?a \<le> fl ?q \<and> fl ?q \<le> of_int k"
    using fl_between [OF _ _ fa fk] by blast
  then have "of_int k - 1 < fl ?q \<and> fl ?q \<le> of_int k" unfolding a_eq by simp
  then have "\<lceil>fl ?q\<rceil> = k" by (simp only: ceiling_eq_iff)
  then show ?thesis using r unfolding k_def by simp
qed

lemma rank_ceiling_50: "N \<le> 2 ^ 40 \<Longrightarrow> rank_ceiling 50 N = \<lceil>(of_int 50 / 100) * (of_nat N :: rat)\<rceil>"
  using fl_1_2 by (intro rank_ceiling_exact [where c = "1 / 2"]) simp_all

lemma rank_ceiling_95: "N \<le> 2 ^ 40 \<Longrightarrow> rank_ceiling 95 N = \<lceil>(of_int 95 / 100) * (of_nat N :: rat)\<rceil>"
  using fl_95_100 by (intro rank_ceiling_exact [where c = "8556839292003942 / 2 ^ 53"]) simp_all

lemma rank_ceiling_99: "N \<le> 2 ^ 40 \<Longrightarrow> rank_ceiling 99 N = \<lceil>(of_int 99 / 100) * (of_nat N :: rat)\<rceil>"
  using fl_99_100 by (intro rank_ceiling_exact [where c = "8917127262193582 / 2 ^ 53"]) simp_all

text \<open>
  So for the three percentiles that \<open>CalculateLatency\<close> asks for, \<open>computePercentile\<close>
  returns what the nearest-rank rule of the specification selects.
\<close>

lemma computePercentile_nearest_rank:
  assumes "latencies \<noteq> []" and "length latencies \<le> 2 ^ 40"
    and "p = 50 \<or> p = 95 \<or> p = 99"
  shows "computePercentile impl latencies p = Done (Some (nearest_rank latencies p))"
proof -
  let ?N = "length latencies"
  let ?x = "(of_int p / 100) * (of_nat ?N :: rat)"
  define k where "k = \<lceil>?x\<rceil>"
  have r: "rank_ceiling p ?N = k"
    unfolding k_def using assms(2,3) rank_ceiling_50 rank_ceiling_95 rank_ceiling_99 by blast
  have p: "0 \<le> p" "p \<le> 100" using assms(3) by auto
  have Nr: "(of_nat ?N :: rat) \<le> 2 ^ 40"
    using assms(2) by (metis of_nat_le_iff of_nat_numeral of_nat_power)
  have x0: "0 \<le> ?x" using p(1) by simp
  have "?x \<le> 1 * of_nat ?N" using p(2) by (intro mult_right_mono) simp_all
  then have xhi: "?x \<le> 2 ^ 40" using Nr by simp
  have k_lo: "of_int k - 1 < ?x" and k_hi: "?x \<le> of_int k"
    unfolding k_def by linarith+
  have k0: "0 \<le> k" using x0 k_hi by linarith
  have "of_int k < (2 ^ 40 + 1 :: rat)" using k_lo xhi by linarith
  then have "of_int k < (of_int (2 ^ 40 + 1) :: rat)" by simp
  then have khi: "k < 2 ^ 40 + 1" by (simp only: of_int_less_iff)
  have w: "wrap64 (k - 1) = k - 1" using k0 khi by (intro wrap64_id) simp_all
  have "computePercentile impl latencies p =
          Done (Some (latencies ! nat (max 0 (min (int ?N - 1) (wrap64 (k - 1))))))"
    using computePercentile_in_range [OF assms(1), of p impl] k0 khi unfolding r by simp
  then have "computePercentile impl latencies p =
          Done (Some (latencies ! nat (max 0 (min (int ?N - 1) (k - 1)))))"
    by (simp only: w)
  then show ?thesis
    unfolding nearest_rank_def nearest_rank_index_def k_def by simp
qed

text \<open>
  The bound of \<open>computePercentile_monotonic\<close> holds for percentiles and lengths
  of 32 bits, and so for every percentile between 0 and 100.
\<close>

lemma rank_ceiling_bounded:
  assumes "- (2 ^ 31) \<le> p" "p \<le> 2 ^ 31" "N \<le> 2 ^ 31"
  shows "- (2 ^ 62) \<le> rank_ceiling p N \<and> rank_ceiling p N \<le> 2 ^ 62"
proof -
  let ?d = "float64_div (float64_of_int p) 100"
  have e31: "fl (2 ^ 31) = 2 ^ 31" "fl (- (2 ^ 31)) = - (2 ^ 31)"
    using fl_of_int [of "2 ^ 31"] fl_of_int [of "- (2 ^ 31)"] by simp_all
  have e62: "fl (2 ^ 62) = 2 ^ 62" "fl (- (2 ^ 62)) = - (2 ^ 62)"
    using fl_exact [of 1 62] fl_exact [of "- 1" 62] by simp_all
  have fp: "float64_of_int p = of_int p"
    using assms(1,2) by (intro float64_of_int_small) simp
  have pr: "- (2 ^ 31) \<le> (of_int p :: rat)" "(of_int p :: rat) \<le> 2 ^ 31"
  proof -
    have "(of_int (- (2 ^ 31)) :: rat) \<le> of_int p" using assms(1) by (simp only: of_int_le_iff)
    then show "- (2 ^ 31) \<le> (of_int p :: rat)" by simp
    have "(of_int p :: rat) \<le> of_int (2 ^ 31)" using assms(2) by (simp only: of_int_le_iff)
    then show "(of_int p :: rat) \<le> 2 ^ 31" by simp
  qed
  have d: "- (2 ^ 31) \<le> ?d \<and> ?d \<le> 2 ^ 31"
    unfolding float64_div_def fp using pr by (intro fl_between [OF _ _ e31(2) e31(1)]) simp_all
  have fN: "float64_of_int (int N) = of_nat N"
  proof -
    have "\<bar>int N\<bar> < 2 ^ 53" using assms(3) by simp
    then show ?thesis using float64_of_int_small [of "int N"] by simp
  qed
  have Nr: "(of_nat N :: rat) \<le> 2 ^ 31"
    using assms(3) by (metis of_nat_le_iff of_nat_numeral of_nat_power)
  have N0: "(0::rat) \<le> of_nat N" by simp
  have up: "?d * of_nat N \<le> 2 ^ 62"
  proof -
    have "?d * of_nat N \<le> 2 ^ 31 * of_nat N" using d N0 by (intro mult_right_mono) simp_all
    also have "\<dots> \<le> 2 ^ 31 * 2 ^ 31" using Nr by (intro mult_left_mono) simp_all
    finally show ?thesis by simp
  qed
  have dn: "- (2 ^ 62) \<le> ?d * of_nat N"
  proof -
    have "- ?d * of_nat N \<le> 2 ^ 31 * of_nat N" using d N0 by (intro mult_right_mono) simp_all
    also have "\<dots> \<le> 2 ^ 31 * 2 ^ 31" using Nr by (intro mult_left_mono) simp_all
    finally show ?thesis by simp
  qed
  have "- (2 ^ 62) \<le> fl (?d * of_nat N) \<and> fl (?d * of_nat N) \<le> 2 ^ 62"
    using dn up by (intro fl_between [OF _ _ e62(2) e62(1)])
  then have b: "of_int (- (2 ^ 62)) \<le> fl (?d * of_nat N)" "fl (?d * of_nat N) \<le> of_int (2 ^ 62)"
    by simp_all
  have hi: "\<lceil>fl (?d * of_nat N)\<rceil> \<le> 2 ^ 62" using b(2) by (simp only: ceiling_le_iff)
  have "(of_int (- (2 ^ 62)) :: rat) \<le> of_int \<lceil>fl (?d * of_nat N)\<rceil>"
    using b(1) le_of_int_ceiling [of "fl (?d * of_nat N)"] by linarith
  then have lo: "- (2 ^ 62) \<le> \<lceil>fl (?d * of_nat N)\<rceil>" by (simp only: of_int_le_iff)
  show ?thesis using lo hi by (simp only: rank_ceiling_def float64_mul_def fN)
qed

lemma computePercentile_monotonic_32bit:
  assumes "sorted latencies" and "latencies \<noteq> []" and "length latencies \<le> 2 ^ 31"
    and "- (2 ^ 31) \<le> p1" and "p1 \<le> p2" and "p2 \<le> 2 ^ 31"
  shows "\<exists>v1 v2. computePercentile impl latencies p1 = Done (Some v1) \<and>
                  computePercentile impl latencies p2 = Done (Some v2) \<and> v1 \<le> v2"
proof -
  have "- (2 ^ 62) \<le> rank_ceiling p1 (length latencies)"
    using rank_ceiling_bounded [of p1 "length latencies"] assms(3-6) by simp
  then have lo: "- (2 ^ 63) < rank_ceiling p1 (length latencies)" by simp
  have "rank_ceiling p2 (length latencies) \<le> 2 ^ 62"
    using rank_ceiling_bounded [of p2 "length latencies"] assms(3-6) by simp
  then have hi: "rank_ceiling p2 (length latencies) < 2 ^ 63" by simp
  show ?thesis using assms(1,2,5) lo hi by (rule computePercentile_monotonic_in_range)
qed

text \<open>A store made by \<open>createNewMetricStore\<close> has a map, so \<open>CreateMetric\<close> does not panic on it.\<close>

lemma CreateMetric_on_new_store:
  "\<exists>r. CreateMetric config \<lparr>objects = objs, store = createNewMetricStore\<rparr> = Done r"
  by (simp add: CreateMetric_def new_metric_def map_assign_def createNewMetricStore_def)

end
